theory Spec2Isabelle
  imports Main "HOL-Library.Word" "HOL-Library.AList"
begin

section \<open>Domain entities\<close>

text \<open>
  The entities of \<^verbatim>\<open>subscriber/domain/entities.go\<close>. A Go \<^verbatim>\<open>error\<close> is modelled by its
  message; a \<^verbatim>\<open>*uint64\<close> that may be nil is an option; \<^verbatim>\<open>map[string]string\<close> is an
  association list; \<^verbatim>\<open>time.Time\<close> is an integer time stamp.
\<close>

type_synonym err = string

record Message =
  msg_Subject :: string
  msg_Sequence :: "64 word"
  msg_Data :: "8 word list"
  msg_Headers :: "(string \<times> string) list"
  msg_Timestamp :: int

record Notification =
  ntf_Subject :: string
  ntf_Sequence :: "64 word"

record SubscriptionConfig =
  Subject :: string
  DurableName :: string
  StartSequence :: "64 word option"
  BatchSize :: "32 word"

section \<open>The collaborators of \<^verbatim>\<open>domain/interfaces.go\<close>\<close>

text \<open>
  \<^verbatim>\<open>Recv()\<close> returns a value, \<^verbatim>\<open>io.EOF\<close> or another error. A stream is the sequence of
  the results of its successive \<^verbatim>\<open>Recv()\<close> calls; it need not ever end.
\<close>

datatype 'a recv = Item 'a | EOF | RecvError err

type_synonym NotificationStream = "nat \<Rightarrow> Notification recv"

type_synonym MessageStream = "nat \<Rightarrow> Message recv"

text \<open>\<^verbatim>\<open>Handle(ctx, msg) error\<close>: \<open>None\<close> is the nil error.\<close>

type_synonym MessageHandler = "Message \<Rightarrow> err option"

text \<open>
  The client is an interface whose implementation is outside the subscriber. Its answers
  are arbitrary functions: \<open>Fetch c k cfg\<close> is what the call \<^verbatim>\<open>Fetch(ctx, cfg)\<close> returns
  when it is the \<open>k\<close>-th fetch of the calling worker, \<open>Close c k\<close> what \<^verbatim>\<open>Close()\<close> returns
  after \<open>k\<close> earlier calls.
\<close>

record EgressClient =
  Subscribe :: "SubscriptionConfig \<Rightarrow> err + NotificationStream"
  Fetch :: "nat \<Rightarrow> SubscriptionConfig \<Rightarrow> err + MessageStream"
  Close :: "nat \<Rightarrow> err option"

section \<open>The multi-subject subscriber, \<^verbatim>\<open>usecase/subscriber/subscriber.go\<close>\<close>

text \<open>A \<^verbatim>\<open>Logger\<close> is either absent from the configuration (nil) or a logger of the caller.\<close>

datatype Logger = defaultLogger | customLogger nat

record Config =
  cfg_Client :: "EgressClient option"
  cfg_DurableName :: string
  cfg_BatchSize :: "32 word"
  cfg_Logger :: "nat option"

text \<open>
  Every \<^verbatim>\<open>s.logger.Printf\<close> of the methods and of a worker's own goroutine is one
  constructor, carrying the arguments of the call. Lengths and counters are Go \<^verbatim>\<open>int\<close>s,
  sequence numbers \<^verbatim>\<open>uint64\<close>.
\<close>

datatype logline =
    RegisteredHandler string
  | StartingSubscriptions int
  | StartingSubscription string
  | FailedToSubscribe string err
  | WaitingForNotifications string
  | ContextCancelled string
  | NotificationChannelClosed string
  | ErrorProcessingNotification string err
  | MessageReceived string "64 word" int
  | HandlerError string "64 word" err
  | ProcessedMessages string int
  | StoppingSubscriber
  | ErrorClosingClient err
  | SubscriberStopped

text \<open>
  What a method or a worker does to its collaborators, in the order it does it: a line
  given to the logger, a call of the client, a call of the handler, and the deferred
  \<^verbatim>\<open>s.wg.Done()\<close> of a worker.
\<close>

datatype event =
    Printf logline
  | ClientSubscribe SubscriptionConfig
  | ClientFetch SubscriptionConfig
  | ClientClose
  | Handle Message
  | WgDone

text \<open>
  The struct \<^verbatim>\<open>MultiSubject\<close>. The Go map \<^verbatim>\<open>handlers\<close> is an association list with one
  entry per key; \<^verbatim>\<open>ctx\<close> and \<^verbatim>\<open>cancel\<close> are the flag \<open>cancelled\<close>; \<^verbatim>\<open>wg\<close> is the counter
  of the wait group. Two fields are added to observe the methods: \<open>goroutines\<close> lists
  the calls \<^verbatim>\<open>go s.subscribeToSubject(subject, handler)\<close> made so far, \<open>events\<close> the
  calls the methods made on the logger and the client. The mutex is not modelled: the
  methods are taken one at a time.
\<close>

record MultiSubject =
  client :: EgressClient
  durableName :: string
  batchSize :: "32 word"
  logger :: Logger
  handlers :: "(string \<times> MessageHandler) list"
  cancelled :: bool
  wg :: nat
  goroutines :: "(string \<times> MessageHandler) list"
  events :: "event list"

text \<open>\<^verbatim>\<open>New\<close>: a nil configuration is \<open>None\<close>; \<^verbatim>\<open>batchSize <= 0\<close> compares signed 32-bit values.\<close>

definition New :: "Config option \<Rightarrow> err + MultiSubject" where
  "New config =
     (case config of
        None \<Rightarrow> Inl ''config cannot be nil''
      | Some c \<Rightarrow>
          (case cfg_Client c of
             None \<Rightarrow> Inl ''client cannot be nil''
           | Some cl \<Rightarrow>
               (let logger = (case cfg_Logger c of None \<Rightarrow> defaultLogger | Some l \<Rightarrow> customLogger l);
                    batchSize = (if sint (cfg_BatchSize c) \<le> 0 then 10 else cfg_BatchSize c)
                in Inr \<lparr>client = cl, durableName = cfg_DurableName c, batchSize = batchSize,
                        logger = logger, handlers = [], cancelled = False, wg = 0,
                        goroutines = [], events = []\<rparr>)))"

definition RegisterHandler :: "string \<Rightarrow> MessageHandler \<Rightarrow> MultiSubject \<Rightarrow> MultiSubject" where
  "RegisterHandler subject handler s =
     s\<lparr>handlers := AList.update subject handler (handlers s),
       events := events s @ [Printf (RegisteredHandler subject)]\<rparr>"

definition RegisterHandlers :: "(string \<times> MessageHandler) list \<Rightarrow> MultiSubject \<Rightarrow> MultiSubject" where
  "RegisterHandlers hs s =
     fold (\<lambda>(subject, handler) s'.
             s'\<lparr>handlers := AList.update subject handler (handlers s'),
                events := events s' @ [Printf (RegisteredHandler subject)]\<rparr>) hs s"

text \<open>
  \<^verbatim>\<open>Start\<close>: the loop over the map runs in the order of the association list (Go leaves
  the order open); each round adds one to the wait group and spawns one goroutine. The
  goroutine is only recorded: nothing of it runs inside \<open>Start\<close>.
\<close>

definition Start :: "MultiSubject \<Rightarrow> err option \<times> MultiSubject" where
  "Start s =
     (if length (handlers s) = 0 then (Some ''no handlers registered'', s)
      else
        (let s1 = s\<lparr>events := events s @ [Printf (StartingSubscriptions (int (length (handlers s))))]\<rparr>
         in (None,
             fold (\<lambda>(subject, handler) s'.
                     s'\<lparr>wg := wg s' + 1, goroutines := goroutines s' @ [(subject, handler)]\<rparr>)
                  (handlers s1) s1)))"

text \<open>
  \<^verbatim>\<open>Stop\<close>: \<open>Stop_cancel\<close> is the part before \<^verbatim>\<open>s.wg.Wait()\<close>, \<open>Stop_close\<close> the part after it.
  \<^verbatim>\<open>Wait\<close> returns once the counter is zero; \<open>Stop\<close> is the call when no other goroutine
  moves in between, \<open>None\<close> when it stays in \<^verbatim>\<open>Wait\<close>.
\<close>

definition close_calls :: "event list \<Rightarrow> nat" where
  "close_calls es = length (filter (\<lambda>e. e = ClientClose) es)"

definition Stop_cancel :: "MultiSubject \<Rightarrow> MultiSubject" where
  "Stop_cancel s = s\<lparr>events := events s @ [Printf StoppingSubscriber], cancelled := True\<rparr>"

definition Stop_close :: "MultiSubject \<Rightarrow> MultiSubject" where
  "Stop_close s =
     (let r = Close (client s) (close_calls (events s));
          s1 = s\<lparr>events := events s @ [ClientClose]\<rparr>;
          s2 = (case r of None \<Rightarrow> s1
                | Some e \<Rightarrow> s1\<lparr>events := events s1 @ [Printf (ErrorClosingClient e)]\<rparr>)
      in s2\<lparr>events := events s2 @ [Printf SubscriberStopped]\<rparr>)"

definition Stop :: "MultiSubject \<Rightarrow> MultiSubject option" where
  "Stop s = (let s1 = Stop_cancel s in if wg s1 = 0 then Some (Stop_close s1) else None)"

text \<open>\<^verbatim>\<open>Wait\<close> returns, with nothing changed, once the counter of the wait group is zero.\<close>

definition Wait :: "MultiSubject \<Rightarrow> MultiSubject option" where
  "Wait s = (if wg s = 0 then Some s else None)"

text \<open>
  The methods next to the workers. A run is a list of actions: a call of a method that
  returns at once, the entry of a call of \<^verbatim>\<open>Stop\<close> (up to \<^verbatim>\<open>s.wg.Wait()\<close>), the return of
  such a call (from \<^verbatim>\<open>Wait\<close> on, possible once the counter is zero), and the exit of a
  worker with its deferred \<^verbatim>\<open>s.wg.Done()\<close>. The first component of the state of a run
  counts the calls of \<^verbatim>\<open>Stop\<close> that have entered and not returned. An action that
  cannot happen in a state gives \<open>None\<close>.
\<close>

datatype action =
    CallRegisterHandler string MessageHandler
  | CallRegisterHandlers "(string \<times> MessageHandler) list"
  | CallStart
  | CallWait
  | EnterStop
  | LeaveStop
  | WorkerDone

fun perform :: "action \<Rightarrow> nat \<times> MultiSubject \<Rightarrow> (nat \<times> MultiSubject) option" where
  "perform (CallRegisterHandler subject handler) (n, s) = Some (n, RegisterHandler subject handler s)"
| "perform (CallRegisterHandlers hs) (n, s) = Some (n, RegisterHandlers hs s)"
| "perform CallStart (n, s) = Some (n, snd (Start s))"
| "perform CallWait (n, s) = (case Wait s of None \<Rightarrow> None | Some s' \<Rightarrow> Some (n, s'))"
| "perform EnterStop (n, s) = Some (Suc n, Stop_cancel s)"
| "perform LeaveStop (n, s) = (if 0 < n \<and> wg s = 0 then Some (n - 1, Stop_close s) else None)"
| "perform WorkerDone (n, s) = (if 0 < wg s then Some (n, s\<lparr>wg := wg s - 1\<rparr>) else None)"

fun run :: "action list \<Rightarrow> nat \<times> MultiSubject \<Rightarrow> (nat \<times> MultiSubject) option" where
  "run [] c = Some c"
| "run (a # as) c = (case perform a c of None \<Rightarrow> None | Some c' \<Rightarrow> run as c')"

section \<open>The per-subject worker\<close>

text \<open>
  The loops of a worker may run forever: a stream need not end and notifications may
  keep coming. They are run on fuel, one unit for each round of a loop. A run that has
  used its fuel is still \<open>Running\<close> and gives the events up to that point; a run that
  reaches a \<^verbatim>\<open>return\<close> has \<open>Returned\<close> its value.
\<close>

datatype 'a outcome = Returned 'a | Running

text \<open>
  The \<^verbatim>\<open>for\<close> loop of \<^verbatim>\<open>processNotification\<close>. \<open>i\<close> is the number of \<^verbatim>\<open>Recv()\<close> calls made
  on the stream so far, \<open>messageCount\<close> the Go \<^verbatim>\<open>int\<close> of that name, \<open>tr\<close> the events so far.
  The loop returns the error of the \<^verbatim>\<open>return\<close> inside it (\<open>Inl\<close>) or, after \<^verbatim>\<open>break\<close>, the
  count (\<open>Inr\<close>).
\<close>

fun recvLoop ::
  "nat \<Rightarrow> MessageHandler \<Rightarrow> string \<Rightarrow> MessageStream \<Rightarrow> nat \<Rightarrow> 64 word \<Rightarrow> event list
     \<Rightarrow> (err + 64 word) outcome \<times> event list" where
  "recvLoop 0 handler subject messageStream i messageCount tr = (Running, tr)"
| "recvLoop (Suc fuel) handler subject messageStream i messageCount tr =
     (case messageStream i of
        EOF \<Rightarrow> (Returned (Inr messageCount), tr)
      | RecvError e \<Rightarrow> (Returned (Inl (''fetch error: '' @ e)), tr)
      | Item msg \<Rightarrow>
          recvLoop fuel handler subject messageStream (Suc i) (messageCount + 1)
            (tr @ [Printf (MessageReceived subject (msg_Sequence msg) (int (length (msg_Data msg)))),
                   Handle msg]
                @ (case handler msg of
                     None \<Rightarrow> []
                   | Some e \<Rightarrow> [Printf (HandlerError subject (msg_Sequence msg) e)])))"

text \<open>
  \<^verbatim>\<open>processNotification\<close>, called as the \<open>k\<close>-th fetch of its worker. The result is the
  returned error (\<open>None\<close> for nil) and the events of the call.
\<close>

definition processNotification ::
  "nat \<Rightarrow> MultiSubject \<Rightarrow> nat \<Rightarrow> string \<Rightarrow> Notification \<Rightarrow> MessageHandler
     \<Rightarrow> err option outcome \<times> event list" where
  "processNotification fuel s k subject notification handler =
     (let config = \<lparr>Subject = ntf_Subject notification, DurableName = durableName s,
                     StartSequence = None, BatchSize = batchSize s\<rparr>
      in case Fetch (client s) k config of
           Inl e \<Rightarrow> (Returned (Some (''failed to fetch: '' @ e)), [ClientFetch config])
         | Inr messageStream \<Rightarrow>
             (case recvLoop fuel handler subject messageStream 0 0 [ClientFetch config] of
                (Running, tr) \<Rightarrow> (Running, tr)
              | (Returned (Inl e), tr) \<Rightarrow> (Returned (Some e), tr)
              | (Returned (Inr messageCount), tr) \<Rightarrow>
                  (Returned None, tr @ [Printf (ProcessedMessages subject (sint messageCount))])))"

text \<open>
  The dispatch loop of \<^verbatim>\<open>subscribeToSubject\<close>. What its \<^verbatim>\<open>select\<close> takes in round \<open>i\<close> is
  decided by the scheduler, by the relay goroutine that fills the channel and by
  \<^verbatim>\<open>Stop\<close>; the loop is taken for every such sequence \<open>sel\<close>: the context is done, the
  channel is closed, or a notification is received.
\<close>

datatype selected = CtxDone | ChanClosed | Received Notification

fun dispatchLoop ::
  "nat \<Rightarrow> MultiSubject \<Rightarrow> string \<Rightarrow> MessageHandler \<Rightarrow> (nat \<Rightarrow> selected) \<Rightarrow> nat \<Rightarrow> nat \<Rightarrow> event list
     \<Rightarrow> unit outcome \<times> event list" where
  "dispatchLoop 0 s subject handler sel i k tr = (Running, tr)"
| "dispatchLoop (Suc fuel) s subject handler sel i k tr =
     (case sel i of
        CtxDone \<Rightarrow> (Returned (), tr @ [Printf (ContextCancelled subject)])
      | ChanClosed \<Rightarrow> (Returned (), tr @ [Printf (NotificationChannelClosed subject)])
      | Received notification \<Rightarrow>
          (case processNotification fuel s k subject notification handler of
             (Running, tr') \<Rightarrow> (Running, tr @ tr')
           | (Returned r, tr') \<Rightarrow>
               dispatchLoop fuel s subject handler sel (Suc i) (Suc k)
                 (tr @ tr' @ (case r of
                                None \<Rightarrow> []
                              | Some e \<Rightarrow> [Printf (ErrorProcessingNotification subject e)]))))"

text \<open>
  \<^verbatim>\<open>subscribeToSubject\<close>, the body of a worker: the events of the worker's own goroutine,
  ending with the deferred \<^verbatim>\<open>s.wg.Done()\<close>. The relay goroutine it starts reads the
  notification stream into the channel; it reaches the worker through \<open>sel\<close> only.
\<close>

definition subscribeToSubject ::
  "nat \<Rightarrow> MultiSubject \<Rightarrow> string \<Rightarrow> MessageHandler \<Rightarrow> (nat \<Rightarrow> selected)
     \<Rightarrow> unit outcome \<times> event list" where
  "subscribeToSubject fuel s subject handler sel =
     (let config = \<lparr>Subject = subject, DurableName = durableName s,
                     StartSequence = None, BatchSize = batchSize s\<rparr>;
          tr = [Printf (StartingSubscription subject), ClientSubscribe config]
      in case Subscribe (client s) config of
           Inl e \<Rightarrow> (Returned (), tr @ [Printf (FailedToSubscribe subject e), WgDone])
         | Inr notificationStream \<Rightarrow>
             (case dispatchLoop fuel s subject handler sel 0 0
                     (tr @ [Printf (WaitingForNotifications subject)]) of
                (Running, tr') \<Rightarrow> (Running, tr')
              | (Returned u, tr') \<Rightarrow> (Returned (), tr' @ [WgDone])))"

section \<open>Reading streams and traces\<close>

text \<open>
  \<open>yields src i ms r\<close>: from its \<open>i\<close>-th \<^verbatim>\<open>Recv()\<close> on, the stream gives the items \<open>ms\<close> in
  this order and then the result \<open>r\<close>.
\<close>

fun yields :: "(nat \<Rightarrow> 'a recv) \<Rightarrow> nat \<Rightarrow> 'a list \<Rightarrow> 'a recv \<Rightarrow> bool" where
  "yields src i [] r = (src i = r)"
| "yields src i (m # ms) r = (src i = Item m \<and> yields src (Suc i) ms r)"

text \<open>The messages given to the handler, in the order of the calls.\<close>

fun handled :: "event list \<Rightarrow> Message list" where
  "handled [] = []"
| "handled (Handle m # es) = m # handled es"
| "handled (e # es) = handled es"

text \<open>The configurations given to the client, in the order of the calls.\<close>

fun configs :: "event list \<Rightarrow> SubscriptionConfig list" where
  "configs [] = []"
| "configs (ClientSubscribe c # es) = c # configs es"
| "configs (ClientFetch c # es) = c # configs es"
| "configs (e # es) = configs es"

text \<open>What one message adds to the events of a fetch cycle.\<close>

definition deliver :: "MessageHandler \<Rightarrow> string \<Rightarrow> Message \<Rightarrow> event list" where
  "deliver handler subject msg =
     [Printf (MessageReceived subject (msg_Sequence msg) (int (length (msg_Data msg)))), Handle msg]
     @ (case handler msg of
          None \<Rightarrow> []
        | Some e \<Rightarrow> [Printf (HandlerError subject (msg_Sequence msg) e)])"

section \<open>The mocks of the tests\<close>

text \<open>
  The streams and the client of \<^verbatim>\<open>subscriber_test.go\<close>: a mock stream gives its list and
  then \<^verbatim>\<open>io.EOF\<close>; the mock client, with no function set, gives empty streams and
  closes without error.
\<close>

definition mockNotificationStream :: "Notification list \<Rightarrow> NotificationStream" where
  "mockNotificationStream notifications =
     (\<lambda>index. if length notifications \<le> index then EOF else Item (notifications ! index))"

definition mockMessageStream :: "Message list \<Rightarrow> MessageStream" where
  "mockMessageStream messages =
     (\<lambda>index. if length messages \<le> index then EOF else Item (messages ! index))"

definition mockEgressClient :: EgressClient where
  "mockEgressClient =
     \<lparr>Subscribe = (\<lambda>config. Inr (mockNotificationStream [])),
      Fetch = (\<lambda>k config. Inr (mockMessageStream [])),
      Close = (\<lambda>k. None)\<rparr>"

text \<open>
  The configuration of the test \<^verbatim>\<open>successful creation\<close> and the subscriber that \<open>New\<close>
  makes of it.
\<close>

definition testConfig :: Config where
  "testConfig = \<lparr>cfg_Client = Some mockEgressClient, cfg_DurableName = ''test-consumer'',
                  cfg_BatchSize = 10, cfg_Logger = None\<rparr>"

definition testSubscriber :: MultiSubject where
  "testSubscriber =
     \<lparr>client = mockEgressClient, durableName = ''test-consumer'', batchSize = 10,
      logger = defaultLogger, handlers = [], cancelled = False, wg = 0,
      goroutines = [], events = []\<rparr>"

text \<open>
  Fixtures in the manner of the tests: a message and a notification of the subject
  \<^verbatim>\<open>test.subject\<close> (the data are the bytes of \<^verbatim>\<open>test\<close>), a handler that fails on sequence 1,
  a message stream that breaks after its first message, and the test subscriber over a
  mock client whose \<^verbatim>\<open>fetchFunc\<close> is set.
\<close>

definition testMessage :: "64 word \<Rightarrow> Message" where
  "testMessage seq = \<lparr>msg_Subject = ''test.subject'', msg_Sequence = seq,
                       msg_Data = [116, 101, 115, 116], msg_Headers = [], msg_Timestamp = 0\<rparr>"

definition testNotification :: Notification where
  "testNotification = \<lparr>ntf_Subject = ''test.subject'', ntf_Sequence = 1\<rparr>"

definition failingHandler :: MessageHandler where
  "failingHandler = (\<lambda>msg. if msg_Sequence msg = 1 then Some ''handler error'' else None)"

definition brokenMessageStream :: MessageStream where
  "brokenMessageStream =
     (\<lambda>index. if index = 0 then Item (testMessage 1)
              else if index = 1 then RecvError ''connection reset''
              else Item (testMessage 2))"

definition fetchingSubscriber :: "MessageStream \<Rightarrow> MultiSubject" where
  "fetchingSubscriber messageStream =
     testSubscriber\<lparr>client := mockEgressClient\<lparr>Fetch := (\<lambda>k config. Inr messageStream)\<rparr>\<rparr>"

section \<open>The coordinator: construction and start\<close>

lemma Start_fold_rest:
  "fold (\<lambda>(subject, handler) s'.
         s'\<lparr>wg := wg s' + 1, goroutines := goroutines s' @ [(subject, handler)]\<rparr>) hs s
   = s\<lparr>wg := wg s + length hs, goroutines := goroutines s @ hs\<rparr>"
  by (induction hs arbitrary: s) (auto split: prod.splits)

lemma Start_closed_form:
  "handlers s \<noteq> [] \<Longrightarrow>
   Start s = (None, s\<lparr>events := events s @ [Printf (StartingSubscriptions (int (length (handlers s))))],
                       wg := wg s + length (handlers s),
                       goroutines := goroutines s @ handlers s\<rparr>)"
  unfolding Start_def Let_def Start_fold_rest by simp

lemma filter_key_absent: "x \<notin> fst ` set xs \<Longrightarrow> filter (\<lambda>p. fst p = x) xs = []"
  by (induction xs) auto

lemma distinct_keys_count:
  "distinct (map fst xs) \<Longrightarrow> x \<in> fst ` set xs \<Longrightarrow> length (filter (\<lambda>p. fst p = x) xs) = 1"
  by (induction xs) (auto simp: filter_key_absent)

lemma New_testConfig: "New (Some testConfig) = Inr testSubscriber"
  by (simp add: New_def testConfig_def testSubscriber_def)

text \<open>
  The registry keeps one entry per subject: it is empty after \<open>New\<close>, and registering
  replaces the entry of a subject that is there.
\<close>

lemma RegisterHandler_distinct:
  "distinct (map fst (handlers s)) \<Longrightarrow> distinct (map fst (handlers (RegisterHandler subject handler s)))"
  by (simp add: RegisterHandler_def distinct_update)

lemma RegisterHandlers_distinct:
  "distinct (map fst (handlers s)) \<Longrightarrow> distinct (map fst (handlers (RegisterHandlers hs s)))"
  unfolding RegisterHandlers_def
  by (induction hs arbitrary: s) (auto simp: distinct_update split: prod.splits)

lemma Start_handlers: "handlers (snd (Start s)) = handlers s"
  by (cases "handlers s = []") (simp_all add: Start_closed_form, simp add: Start_def)

lemma perform_distinct:
  "perform a c = Some c' \<Longrightarrow> distinct (map fst (handlers (snd c)))
     \<Longrightarrow> distinct (map fst (handlers (snd c')))"
  by (cases a; cases c)
     (auto simp: RegisterHandler_distinct RegisterHandlers_distinct Start_handlers
                 Wait_def Stop_cancel_def Stop_close_def Let_def
           split: if_splits option.splits)

lemma run_distinct:
  "run acts c = Some c' \<Longrightarrow> distinct (map fst (handlers (snd c)))
     \<Longrightarrow> distinct (map fst (handlers (snd c')))"
proof (induction acts arbitrary: c)
  case Nil
  then show ?case by simp
next
  case (Cons a acts)
  then show ?case by (auto split: option.splits dest: perform_distinct)
qed

text \<open>
  Claim C1. When at least one subject is registered, \<open>Start\<close> returns no error and spawns
  one goroutine for each entry of the registry, with its subject and its handler: as
  many as there are registered subjects, and exactly one for each of them. The wait
  group grows by one for each. \<open>Start\<close> itself only writes its log line: it calls
  neither the client nor a handler, so it returns before any worker has subscribed.
\<close>

theorem Start_spawns_one_worker_per_subject:
  assumes "handlers s \<noteq> []" and "distinct (map fst (handlers s))"
  shows "\<exists>s'. Start s = (None, s')
           \<and> goroutines s' = goroutines s @ handlers s
           \<and> length (handlers s) = card (dom (map_of (handlers s)))
           \<and> (\<forall>subject \<in> dom (map_of (handlers s)).
                 length (filter (\<lambda>g. fst g = subject) (handlers s)) = 1)
           \<and> wg s' = wg s + length (handlers s)
           \<and> events s' = events s @ [Printf (StartingSubscriptions (int (length (handlers s))))]
           \<and> client s' = client s \<and> cancelled s' = cancelled s \<and> handlers s' = handlers s"
proof -
  have "length (handlers s) = card (dom (map_of (handlers s)))"
    using distinct_card [OF assms(2)] by (simp add: dom_map_of_conv_image_fst)
  moreover have "\<forall>subject \<in> dom (map_of (handlers s)).
                 length (filter (\<lambda>g. fst g = subject) (handlers s)) = 1"
    using assms(2) by (simp add: dom_map_of_conv_image_fst distinct_keys_count)
  ultimately show ?thesis
    using assms(1) by (simp add: Start_closed_form)
qed

theorem Start_spawns_one_worker_per_subject_witness:
  "handlers (RegisterHandler ''b'' (\<lambda>msg. None) (RegisterHandler ''a'' (\<lambda>msg. None) testSubscriber)) \<noteq> []
   \<and> distinct (map fst (handlers (RegisterHandler ''b'' (\<lambda>msg. None)
                                   (RegisterHandler ''a'' (\<lambda>msg. None) testSubscriber))))
   \<and> fst (Start (RegisterHandler ''b'' (\<lambda>msg. None) (RegisterHandler ''a'' (\<lambda>msg. None) testSubscriber))) = None
   \<and> map fst (goroutines (snd (Start (RegisterHandler ''b'' (\<lambda>msg. None)
                                   (RegisterHandler ''a'' (\<lambda>msg. None) testSubscriber))))) = [''a'', ''b'']
   \<and> wg (snd (Start (RegisterHandler ''b'' (\<lambda>msg. None)
                                   (RegisterHandler ''a'' (\<lambda>msg. None) testSubscriber)))) = 2"
  using Start_spawns_one_worker_per_subject
          [of "RegisterHandler ''b'' (\<lambda>msg. None) (RegisterHandler ''a'' (\<lambda>msg. None) testSubscriber)"]
  by (auto simp: RegisterHandler_def testSubscriber_def)

text \<open>
  Claim C2. When the registry is empty, \<open>Start\<close> returns the error
  \<^verbatim>\<open>no handlers registered\<close> and leaves the subscriber as it was: no goroutine is
  spawned, the wait group is not touched and nothing is logged.
\<close>

theorem Start_without_handlers:
  assumes "handlers s = []"
  shows "Start s = (Some ''no handlers registered'', s)"
  using assms by (simp add: Start_def)

theorem Start_without_handlers_witness:
  "handlers testSubscriber = []
   \<and> Start testSubscriber = (Some ''no handlers registered'', testSubscriber)"
  using Start_without_handlers [of testSubscriber] by (simp add: testSubscriber_def)

text \<open>
  Claim C8. After \<open>Start\<close> has returned, \<open>RegisterHandler\<close> still binds the handler to the
  subject in the registry, replacing an earlier binding, but the goroutines stay those
  that \<open>Start\<close> spawned, one for each entry the registry had then, and the wait group
  keeps its count.
\<close>

theorem RegisterHandler_after_Start:
  assumes "Start s = (None, s1)"
  shows "map_of (handlers (RegisterHandler subject handler s1)) = (map_of (handlers s1))(subject \<mapsto> handler)
       \<and> goroutines (RegisterHandler subject handler s1) = goroutines s1
       \<and> goroutines s1 = goroutines s @ handlers s
       \<and> wg (RegisterHandler subject handler s1) = wg s1"
proof -
  from assms have "handlers s \<noteq> []" by (auto simp: Start_def split: if_splits)
  with assms have "goroutines s1 = goroutines s @ handlers s"
    by (auto simp: Start_closed_form)
  then show ?thesis by (simp add: RegisterHandler_def update_conv')
qed

theorem RegisterHandler_after_Start_witness:
  "Start (RegisterHandler ''a'' (\<lambda>msg. None) testSubscriber)
     = (None, snd (Start (RegisterHandler ''a'' (\<lambda>msg. None) testSubscriber)))
   \<and> map fst (handlers (RegisterHandler ''b'' (\<lambda>msg. Some ''late'')
                  (snd (Start (RegisterHandler ''a'' (\<lambda>msg. None) testSubscriber))))) = [''a'', ''b'']
   \<and> map fst (goroutines (RegisterHandler ''b'' (\<lambda>msg. Some ''late'')
                  (snd (Start (RegisterHandler ''a'' (\<lambda>msg. None) testSubscriber))))) = [''a'']
   \<and> wg (RegisterHandler ''b'' (\<lambda>msg. Some ''late'')
                  (snd (Start (RegisterHandler ''a'' (\<lambda>msg. None) testSubscriber)))) = 1"
proof -
  have start: "Start (RegisterHandler ''a'' (\<lambda>msg. None) testSubscriber)
     = (None, snd (Start (RegisterHandler ''a'' (\<lambda>msg. None) testSubscriber)))"
    by (simp add: Start_def RegisterHandler_def testSubscriber_def)
  show ?thesis
    using start RegisterHandler_after_Start [OF start, of "''b''" "\<lambda>msg. Some ''late''"]
    by (simp add: Start_def RegisterHandler_def testSubscriber_def)
qed

section \<open>The fetch cycle and the dispatch loop\<close>

lemma configs_append: "configs (xs @ ys) = configs xs @ configs ys"
  by (induction xs rule: configs.induct) auto

lemma handled_append: "handled (xs @ ys) = handled xs @ handled ys"
  by (induction xs rule: handled.induct) auto

lemma handled_deliver: "handled (deliver h subj m) = [m]"
  by (simp add: deliver_def split: option.splits)

lemma handled_concat_deliver: "handled (concat (map (deliver h subj) msgs)) = msgs"
  by (induction msgs) (simp_all add: handled_append handled_deliver)

lemma recvLoop_Item:
  "ms i = Item m \<Longrightarrow>
   recvLoop (Suc f) h subj ms i c tr = recvLoop f h subj ms (Suc i) (c + 1) (tr @ deliver h subj m)"
  by (simp add: deliver_def)

lemma recvLoop_yields_EOF:
  "yields ms i msgs EOF \<Longrightarrow> length msgs < fuel \<Longrightarrow>
   recvLoop fuel h subj ms i c tr =
     (Returned (Inr (c + of_nat (length msgs))), tr @ concat (map (deliver h subj) msgs))"
proof (induction msgs arbitrary: fuel i c tr)
  case Nil
  then obtain f where "fuel = Suc f" by (cases fuel) auto
  with Nil show ?case by simp
next
  case (Cons m msgs)
  then obtain f where f: "fuel = Suc f" by (cases fuel) auto
  from Cons.prems f have "recvLoop f h subj ms (Suc i) (c + 1) (tr @ deliver h subj m) =
     (Returned (Inr (c + 1 + of_nat (length msgs))),
      (tr @ deliver h subj m) @ concat (map (deliver h subj) msgs))"
    by (intro Cons.IH) auto
  moreover from Cons.prems have "ms i = Item m" by simp
  ultimately show ?case
    unfolding f by (simp add: recvLoop_Item add.assoc add.commute del: recvLoop.simps)
qed

lemma recvLoop_yields_RecvError:
  "yields ms i msgs (RecvError e) \<Longrightarrow> length msgs < fuel \<Longrightarrow>
   recvLoop fuel h subj ms i c tr =
     (Returned (Inl (''fetch error: '' @ e)), tr @ concat (map (deliver h subj) msgs))"
proof (induction msgs arbitrary: fuel i c tr)
  case Nil
  then obtain f where "fuel = Suc f" by (cases fuel) auto
  with Nil show ?case by simp
next
  case (Cons m msgs)
  then obtain f where f: "fuel = Suc f" by (cases fuel) auto
  from Cons.prems f have "recvLoop f h subj ms (Suc i) (c + 1) (tr @ deliver h subj m) =
     (Returned (Inl (''fetch error: '' @ e)),
      (tr @ deliver h subj m) @ concat (map (deliver h subj) msgs))"
    by (intro Cons.IH) auto
  moreover from Cons.prems have "ms i = Item m" by simp
  ultimately show ?case
    unfolding f by (simp add: recvLoop_Item del: recvLoop.simps)
qed

lemma recvLoop_configs: "configs (snd (recvLoop fuel h subj ms i c tr)) = configs tr"
  by (induction fuel h subj ms i c tr rule: recvLoop.induct)
     (auto simp: configs_append split: recv.splits option.splits)

lemma recvLoop_configs_eq:
  "recvLoop fuel h subj ms i c tr = (r, tr') \<Longrightarrow> configs tr' = configs tr"
  using recvLoop_configs [of fuel h subj ms i c tr] by simp

lemma processNotification_configs:
  "configs (snd (processNotification fuel s k subj n h)) =
     [\<lparr>Subject = ntf_Subject n, DurableName = durableName s,
       StartSequence = None, BatchSize = batchSize s\<rparr>]"
  by (auto simp: processNotification_def Let_def configs_append
           split: sum.splits prod.splits outcome.splits dest!: recvLoop_configs_eq)

lemma processNotification_EOF:
  assumes "Fetch (client s) k \<lparr>Subject = ntf_Subject n, DurableName = durableName s,
              StartSequence = None, BatchSize = batchSize s\<rparr> = Inr ms"
      and "yields ms 0 msgs EOF" and "length msgs < fuel"
  shows "processNotification fuel s k subj n h =
           (Returned None,
            ClientFetch \<lparr>Subject = ntf_Subject n, DurableName = durableName s,
                         StartSequence = None, BatchSize = batchSize s\<rparr>
              # concat (map (deliver h subj) msgs)
              @ [Printf (ProcessedMessages subj (sint (word_of_nat (length msgs) :: 64 word)))])"
  using assms(1) recvLoop_yields_EOF [OF assms(2,3)]
  by (simp add: processNotification_def)

lemma processNotification_RecvError:
  assumes "Fetch (client s) k \<lparr>Subject = ntf_Subject n, DurableName = durableName s,
              StartSequence = None, BatchSize = batchSize s\<rparr> = Inr ms"
      and "yields ms 0 msgs (RecvError e)" and "length msgs < fuel"
  shows "processNotification fuel s k subj n h =
           (Returned (Some (''fetch error: '' @ e)),
            ClientFetch \<lparr>Subject = ntf_Subject n, DurableName = durableName s,
                         StartSequence = None, BatchSize = batchSize s\<rparr>
              # concat (map (deliver h subj) msgs))"
  using assms(1) recvLoop_yields_RecvError [OF assms(2,3)]
  by (simp add: processNotification_def)

lemma dispatchLoop_configs:
  "\<exists>cs. configs (snd (dispatchLoop fuel s subj h sel i k tr)) = configs tr @ cs
      \<and> (\<forall>j<length cs. \<exists>n. sel (i + j) = Received n
             \<and> cs ! j = \<lparr>Subject = ntf_Subject n, DurableName = durableName s,
                        StartSequence = None, BatchSize = batchSize s\<rparr>)"
proof (induction fuel arbitrary: i k tr)
  case 0
  then show ?case by simp
next
  case (Suc fuel)
  show ?case
  proof (cases "sel i")
    case CtxDone
    then show ?thesis by (simp add: configs_append)
  next
    case ChanClosed
    then show ?thesis by (simp add: configs_append)
  next
    case (Received n)
    let ?c = "\<lparr>Subject = ntf_Subject n, DurableName = durableName s,
                StartSequence = None, BatchSize = batchSize s\<rparr>"
    obtain r tr' where p: "processNotification fuel s k subj n h = (r, tr')"
      by (cases "processNotification fuel s k subj n h")
    with processNotification_configs [of fuel s k subj n h] have c: "configs tr' = [?c]" by simp
    show ?thesis
    proof (cases r)
      case Running
      with Received p c have "configs (snd (dispatchLoop (Suc fuel) s subj h sel i k tr)) = configs tr @ [?c]"
        by (simp add: configs_append)
      with Received show ?thesis by simp
    next
      case (Returned x)
      let ?tr = "tr @ tr' @ (case x of None \<Rightarrow> [] | Some e \<Rightarrow> [Printf (ErrorProcessingNotification subj e)])"
      from Suc.IH [of "Suc i" "Suc k" ?tr] obtain cs where
        cs: "configs (snd (dispatchLoop fuel s subj h sel (Suc i) (Suc k) ?tr)) = configs ?tr @ cs"
          "\<forall>j<length cs. \<exists>n. sel (Suc i + j) = Received n
             \<and> cs ! j = \<lparr>Subject = ntf_Subject n, DurableName = durableName s,
                        StartSequence = None, BatchSize = batchSize s\<rparr>"
        by blast
      have "configs ?tr = configs tr @ [?c]"
        using c by (simp add: configs_append split: option.splits)
      with cs(1) Received p Returned
      have "configs (snd (dispatchLoop (Suc fuel) s subj h sel i k tr)) = configs tr @ (?c # cs)"
        by simp
      moreover have "\<forall>j<length (?c # cs). \<exists>n. sel (i + j) = Received n
             \<and> (?c # cs) ! j = \<lparr>Subject = ntf_Subject n, DurableName = durableName s,
                        StartSequence = None, BatchSize = batchSize s\<rparr>"
      proof (intro allI impI)
        fix j assume "j < length (?c # cs)"
        then show "\<exists>n. sel (i + j) = Received n
             \<and> (?c # cs) ! j = \<lparr>Subject = ntf_Subject n, DurableName = durableName s,
                        StartSequence = None, BatchSize = batchSize s\<rparr>"
          using Received cs(2) by (cases j) auto
      qed
      ultimately show ?thesis by blast
    qed
  qed
qed

lemmas fixtures = testSubscriber_def mockEgressClient_def mockMessageStream_def testMessage_def
  testNotification_def failingHandler_def brokenMessageStream_def fetchingSubscriber_def

text \<open>
  Claim C5. When the fetch succeeds and the message stream gives the messages \<open>msgs\<close> and
  then end-of-stream, the cycle, given fuel for these rounds, returns without error, and
  the handler has been called on exactly the messages \<open>msgs\<close>, once each and in the order
  of the stream.
\<close>

theorem processNotification_delivers_in_order:
  assumes "Fetch (client s) k \<lparr>Subject = ntf_Subject n, DurableName = durableName s,
              StartSequence = None, BatchSize = batchSize s\<rparr> = Inr ms"
      and "yields ms 0 msgs EOF" and "length msgs < fuel"
  shows "\<exists>tr. processNotification fuel s k subject n h = (Returned None, tr) \<and> handled tr = msgs"
  using processNotification_EOF [OF assms, of subject h]
  by (simp add: handled_append handled_concat_deliver)

theorem processNotification_delivers_in_order_witness:
  "yields (mockMessageStream [testMessage 1, testMessage 2]) 0 [testMessage 1, testMessage 2] EOF
   \<and> processNotification 3 (fetchingSubscriber (mockMessageStream [testMessage 1, testMessage 2])) 0
        ''test.subject'' testNotification (\<lambda>msg. None)
     = (Returned None,
        [ClientFetch \<lparr>Subject = ''test.subject'', DurableName = ''test-consumer'',
                      StartSequence = None, BatchSize = 10\<rparr>,
         Printf (MessageReceived ''test.subject'' 1 4), Handle (testMessage 1),
         Printf (MessageReceived ''test.subject'' 2 4), Handle (testMessage 2),
         Printf (ProcessedMessages ''test.subject'' 2)])"
proof -
  let ?ms = "mockMessageStream [testMessage 1, testMessage 2]"
  let ?s = "fetchingSubscriber ?ms"
  have f: "Fetch (client ?s) 0 \<lparr>Subject = ntf_Subject testNotification, DurableName = durableName ?s,
              StartSequence = None, BatchSize = batchSize ?s\<rparr> = Inr ?ms"
    by (simp add: fixtures)
  have y: "yields ?ms 0 [testMessage 1, testMessage 2] EOF"
    by (simp add: mockMessageStream_def)
  have l: "length [testMessage 1, testMessage 2] < 3" by simp
  from processNotification_delivers_in_order [OF f y l, of "''test.subject''" "\<lambda>msg. None"] y
  show ?thesis
    by (simp add: fixtures processNotification_def numeral_3_eq_3)
qed

text \<open>
  Claim C4. When the handler fails on a message of the batch, the cycle still calls the
  handler on every message of the batch, in order, logs the error of the handler and
  returns without error; the dispatch loop then goes on to its next round with what the
  cycle did appended to its events.
\<close>

theorem handler_error_does_not_abort:
  assumes "Fetch (client s) k \<lparr>Subject = ntf_Subject n, DurableName = durableName s,
              StartSequence = None, BatchSize = batchSize s\<rparr> = Inr ms"
      and "yields ms 0 msgs EOF" and "length msgs < fuel"
      and "j < length msgs" and "h (msgs ! j) = Some e"
      and "sel i = Received n"
  shows "\<exists>tr. processNotification fuel s k subject n h = (Returned None, tr)
           \<and> handled tr = msgs
           \<and> Printf (HandlerError subject (msg_Sequence (msgs ! j)) e) \<in> set tr
           \<and> dispatchLoop (Suc fuel) s subject h sel i k acc
               = dispatchLoop fuel s subject h sel (Suc i) (Suc k) (acc @ tr)"
proof -
  let ?tr = "ClientFetch \<lparr>Subject = ntf_Subject n, DurableName = durableName s,
                         StartSequence = None, BatchSize = batchSize s\<rparr>
              # concat (map (deliver h subject) msgs)
              @ [Printf (ProcessedMessages subject (sint (word_of_nat (length msgs) :: 64 word)))]"
  have p: "processNotification fuel s k subject n h = (Returned None, ?tr)"
    by (rule processNotification_EOF [OF assms(1-3)])
  have "Printf (HandlerError subject (msg_Sequence (msgs ! j)) e) \<in> set (deliver h subject (msgs ! j))"
    using assms(5) by (simp add: deliver_def)
  moreover have "msgs ! j \<in> set msgs" using assms(4) by simp
  ultimately have "Printf (HandlerError subject (msg_Sequence (msgs ! j)) e) \<in> set ?tr"
    by auto
  moreover have "handled ?tr = msgs"
    by (simp add: handled_append handled_concat_deliver)
  moreover have "dispatchLoop (Suc fuel) s subject h sel i k acc
               = dispatchLoop fuel s subject h sel (Suc i) (Suc k) (acc @ ?tr)"
    using assms(6) p by simp
  ultimately show ?thesis using p by blast
qed

theorem handler_error_does_not_abort_witness:
  "yields (mockMessageStream [testMessage 1, testMessage 2]) 0 [testMessage 1, testMessage 2] EOF
   \<and> failingHandler ([testMessage 1, testMessage 2] ! 0) = Some ''handler error''
   \<and> dispatchLoop 4 (fetchingSubscriber (mockMessageStream [testMessage 1, testMessage 2]))
        ''test.subject'' failingHandler
        (\<lambda>i. if i = 0 then Received testNotification else ChanClosed) 0 0 []
     = (Returned (),
        [ClientFetch \<lparr>Subject = ''test.subject'', DurableName = ''test-consumer'',
                      StartSequence = None, BatchSize = 10\<rparr>,
         Printf (MessageReceived ''test.subject'' 1 4), Handle (testMessage 1),
         Printf (HandlerError ''test.subject'' 1 ''handler error''),
         Printf (MessageReceived ''test.subject'' 2 4), Handle (testMessage 2),
         Printf (ProcessedMessages ''test.subject'' 2),
         Printf (NotificationChannelClosed ''test.subject'')])"
proof -
  let ?ms = "mockMessageStream [testMessage 1, testMessage 2]"
  let ?s = "fetchingSubscriber ?ms"
  let ?sel = "\<lambda>i::nat. if i = 0 then Received testNotification else ChanClosed"
  have f: "Fetch (client ?s) 0 \<lparr>Subject = ntf_Subject testNotification, DurableName = durableName ?s,
              StartSequence = None, BatchSize = batchSize ?s\<rparr> = Inr ?ms"
    by (simp add: fixtures)
  have y: "yields ?ms 0 [testMessage 1, testMessage 2] EOF"
    by (simp add: mockMessageStream_def)
  have l: "length [testMessage 1, testMessage 2] < 3" by simp
  have j: "0 < length [testMessage 1, testMessage 2]" by simp
  have e: "failingHandler ([testMessage 1, testMessage 2] ! 0) = Some ''handler error''"
    by (simp add: fixtures)
  have r: "?sel 0 = Received testNotification" by simp
  from handler_error_does_not_abort
         [where sel = ?sel and i = 0 and subject = "''test.subject''" and acc = "[]"
            and h = failingHandler and msgs = "[testMessage 1, testMessage 2]" and j = 0,
          OF f y l j e r] y e
  show ?thesis
    by (auto simp: fixtures processNotification_def numeral_3_eq_3 eval_nat_numeral)
qed

text \<open>
  Claim C6. When the message stream gives the messages \<open>msgs\<close> and then an error that is
  not end-of-stream, the cycle returns that error, wrapped, and the handler has been
  called on \<open>msgs\<close> only, whatever the stream holds after the error. The dispatch loop
  logs the error and goes on to its next round.
\<close>

theorem stream_error_aborts_cycle:
  assumes "Fetch (client s) k \<lparr>Subject = ntf_Subject n, DurableName = durableName s,
              StartSequence = None, BatchSize = batchSize s\<rparr> = Inr ms"
      and "yields ms 0 msgs (RecvError e)" and "length msgs < fuel"
      and "sel i = Received n"
  shows "\<exists>tr. processNotification fuel s k subject n h = (Returned (Some (''fetch error: '' @ e)), tr)
           \<and> handled tr = msgs
           \<and> dispatchLoop (Suc fuel) s subject h sel i k acc
               = dispatchLoop fuel s subject h sel (Suc i) (Suc k)
                   (acc @ tr @ [Printf (ErrorProcessingNotification subject (''fetch error: '' @ e))])"
proof -
  let ?tr = "ClientFetch \<lparr>Subject = ntf_Subject n, DurableName = durableName s,
                         StartSequence = None, BatchSize = batchSize s\<rparr>
              # concat (map (deliver h subject) msgs)"
  have p: "processNotification fuel s k subject n h = (Returned (Some (''fetch error: '' @ e)), ?tr)"
    by (rule processNotification_RecvError [OF assms(1-3)])
  moreover have "handled ?tr = msgs"
    by (simp add: handled_concat_deliver)
  moreover have "dispatchLoop (Suc fuel) s subject h sel i k acc
               = dispatchLoop fuel s subject h sel (Suc i) (Suc k)
                   (acc @ ?tr @ [Printf (ErrorProcessingNotification subject (''fetch error: '' @ e))])"
    using assms(4) p by simp
  ultimately show ?thesis by blast
qed

theorem stream_error_aborts_cycle_witness:
  "yields brokenMessageStream 0 [testMessage 1] (RecvError ''connection reset'')
   \<and> brokenMessageStream 2 = Item (testMessage 2)
   \<and> dispatchLoop 5 (fetchingSubscriber brokenMessageStream) ''test.subject'' (\<lambda>msg. None)
        (\<lambda>i. if i = 0 then Received testNotification else ChanClosed) 0 0 []
     = (Returned (),
        [ClientFetch \<lparr>Subject = ''test.subject'', DurableName = ''test-consumer'',
                      StartSequence = None, BatchSize = 10\<rparr>,
         Printf (MessageReceived ''test.subject'' 1 4), Handle (testMessage 1),
         Printf (ErrorProcessingNotification ''test.subject'' ''fetch error: connection reset''),
         Printf (NotificationChannelClosed ''test.subject'')])"
proof -
  let ?s = "fetchingSubscriber brokenMessageStream"
  let ?sel = "\<lambda>i::nat. if i = 0 then Received testNotification else ChanClosed"
  have f: "Fetch (client ?s) 0 \<lparr>Subject = ntf_Subject testNotification, DurableName = durableName ?s,
              StartSequence = None, BatchSize = batchSize ?s\<rparr> = Inr brokenMessageStream"
    by (simp add: fixtures)
  have y: "yields brokenMessageStream 0 [testMessage 1] (RecvError ''connection reset'')"
    by (simp add: brokenMessageStream_def)
  have l: "length [testMessage 1] < 4" by simp
  have r: "?sel 0 = Received testNotification" by simp
  from stream_error_aborts_cycle
         [where sel = ?sel and i = 0 and subject = "''test.subject''" and h = "\<lambda>msg. None" and acc = "[]",
          OF f y l r] y
  show ?thesis
    by (auto simp: fixtures processNotification_def eval_nat_numeral)
qed

section \<open>The configurations a worker gives to the client\<close>

lemma subscribeToSubject_configs:
  "\<exists>cs. configs (snd (subscribeToSubject fuel s subject h sel))
          = \<lparr>Subject = subject, DurableName = durableName s,
             StartSequence = None, BatchSize = batchSize s\<rparr> # cs
      \<and> (\<forall>j<length cs. \<exists>n. sel j = Received n
             \<and> cs ! j = \<lparr>Subject = ntf_Subject n, DurableName = durableName s,
                         StartSequence = None, BatchSize = batchSize s\<rparr>)"
proof (cases "Subscribe (client s) \<lparr>Subject = subject, DurableName = durableName s,
             StartSequence = None, BatchSize = batchSize s\<rparr>")
  case (Inl e)
  then have "configs (snd (subscribeToSubject fuel s subject h sel))
          = [\<lparr>Subject = subject, DurableName = durableName s,
             StartSequence = None, BatchSize = batchSize s\<rparr>]"
    by (simp add: subscribeToSubject_def)
  then show ?thesis by simp
next
  case (Inr ns)
  let ?c = "\<lparr>Subject = subject, DurableName = durableName s,
             StartSequence = None, BatchSize = batchSize s\<rparr>"
  let ?tr = "[Printf (StartingSubscription subject), ClientSubscribe ?c,
              Printf (WaitingForNotifications subject)]"
  from dispatchLoop_configs [of fuel s subject h sel 0 0 ?tr] obtain cs where
    cs: "configs (snd (dispatchLoop fuel s subject h sel 0 0 ?tr)) = configs ?tr @ cs"
        "\<forall>j<length cs. \<exists>n. sel (0 + j) = Received n
             \<and> cs ! j = \<lparr>Subject = ntf_Subject n, DurableName = durableName s,
                         StartSequence = None, BatchSize = batchSize s\<rparr>"
    by blast
  obtain r tr' where d: "dispatchLoop fuel s subject h sel 0 0 ?tr = (r, tr')"
    by (cases "dispatchLoop fuel s subject h sel 0 0 ?tr")
  with cs(1) have "configs tr' = ?c # cs" by simp
  with Inr d have "configs (snd (subscribeToSubject fuel s subject h sel)) = ?c # cs"
    by (cases r) (simp_all add: subscribeToSubject_def configs_append)
  with cs(2) show ?thesis by simp
qed

text \<open>
  Claim C7, as the code has it. A fetch cycle gives the client one configuration: the
  subject of its notification, the durable name and the batch size of the subscriber,
  no start sequence. The first configuration a worker gives to the client is
  its subscription: its own subject, the durable name and the batch size of the
  subscriber, no start sequence. Every later one is the fetch of a round: it carries the
  subject of the notification received in that round, the same durable name and batch
  size, and no start sequence, so the sequence of the notification is not in it. The
  subject of a fetch is that of the subscription only when the notification names it.
\<close>

theorem fetch_config_follows_notification:
  "configs (snd (processNotification fuel s k subject n h))
     = [\<lparr>Subject = ntf_Subject n, DurableName = durableName s,
         StartSequence = None, BatchSize = batchSize s\<rparr>]
   \<and> (\<exists>cs. configs (snd (subscribeToSubject fuel s subject h sel))
          = \<lparr>Subject = subject, DurableName = durableName s,
             StartSequence = None, BatchSize = batchSize s\<rparr> # cs
      \<and> (\<forall>j<length cs. \<exists>n. sel j = Received n
             \<and> cs ! j = \<lparr>Subject = ntf_Subject n, DurableName = durableName s,
                         StartSequence = None, BatchSize = batchSize s\<rparr>))"
proof
  show "configs (snd (processNotification fuel s k subject n h))
     = [\<lparr>Subject = ntf_Subject n, DurableName = durableName s,
         StartSequence = None, BatchSize = batchSize s\<rparr>]"
    by (rule processNotification_configs)
next
  show "\<exists>cs. configs (snd (subscribeToSubject fuel s subject h sel))
          = \<lparr>Subject = subject, DurableName = durableName s,
             StartSequence = None, BatchSize = batchSize s\<rparr> # cs
      \<and> (\<forall>j<length cs. \<exists>n. sel j = Received n
             \<and> cs ! j = \<lparr>Subject = ntf_Subject n, DurableName = durableName s,
                         StartSequence = None, BatchSize = batchSize s\<rparr>)"
    by (rule subscribeToSubject_configs)
qed

theorem fetch_config_follows_notification_witness:
  "configs (snd (subscribeToSubject 3 testSubscriber ''test.subject'' (\<lambda>msg. None)
                   (\<lambda>i. if i = 0 then Received testNotification else ChanClosed)))
     = [\<lparr>Subject = ''test.subject'', DurableName = ''test-consumer'',
         StartSequence = None, BatchSize = 10\<rparr>,
        \<lparr>Subject = ''test.subject'', DurableName = ''test-consumer'',
         StartSequence = None, BatchSize = 10\<rparr>]"
  using fetch_config_follows_notification [of 3 testSubscriber 0 "''test.subject''" testNotification
          "\<lambda>msg. None" "\<lambda>i. if i = 0 then Received testNotification else ChanClosed"]
  by (simp add: fixtures subscribeToSubject_def processNotification_def eval_nat_numeral)

text \<open>
  The worker of \<^verbatim>\<open>test.subject\<close> receives a notification that names \<^verbatim>\<open>other.subject\<close>: it
  fetches from \<^verbatim>\<open>other.subject\<close>, not from the subject it subscribed to.
\<close>

theorem fetch_subject_counterexample:
  "map Subject (configs (snd (subscribeToSubject 3 testSubscriber ''test.subject'' (\<lambda>msg. None)
                   (\<lambda>i. if i = 0 then Received \<lparr>ntf_Subject = ''other.subject'', ntf_Sequence = 1\<rparr>
                        else ChanClosed))))
     = [''test.subject'', ''other.subject'']"
  by (simp add: fixtures subscribeToSubject_def processNotification_def eval_nat_numeral)

lemma RegisterHandlers_batchSize: "batchSize (RegisterHandlers hs s) = batchSize s"
  unfolding RegisterHandlers_def by (induction hs arbitrary: s) (auto split: prod.splits)

lemma Start_batchSize: "batchSize (snd (Start s)) = batchSize s"
  by (cases "handlers s = []") (simp_all add: Start_closed_form, simp add: Start_def)

lemma perform_batchSize: "perform a c = Some c' \<Longrightarrow> batchSize (snd c') = batchSize (snd c)"
  by (cases a; cases c)
     (auto simp: RegisterHandler_def RegisterHandlers_batchSize Start_batchSize Wait_def
                 Stop_cancel_def Stop_close_def Let_def split: if_splits option.splits)

lemma run_batchSize: "run acts c = Some c' \<Longrightarrow> batchSize (snd c') = batchSize (snd c)"
proof (induction acts arbitrary: c)
  case Nil
  then show ?case by simp
next
  case (Cons a acts)
  then show ?case by (auto split: option.splits dest!: perform_batchSize)
qed

lemma subscribeToSubject_batchSize:
  "list_all (\<lambda>cfg. BatchSize cfg = batchSize s) (configs (snd (subscribeToSubject fuel s subject h sel)))"
proof -
  from subscribeToSubject_configs [of fuel s subject h sel] obtain cs where
    cs: "configs (snd (subscribeToSubject fuel s subject h sel))
          = \<lparr>Subject = subject, DurableName = durableName s,
             StartSequence = None, BatchSize = batchSize s\<rparr> # cs"
        "\<forall>j<length cs. \<exists>n. sel j = Received n
             \<and> cs ! j = \<lparr>Subject = ntf_Subject n, DurableName = durableName s,
                         StartSequence = None, BatchSize = batchSize s\<rparr>"
    by blast
  from cs(2) have "list_all (\<lambda>cfg. BatchSize cfg = batchSize s) cs"
    by (auto simp: list_all_length)
  with cs(1) show ?thesis by simp
qed

text \<open>
  Claim C10. For a configuration with a client and a batch size that is zero or
  negative, \<open>New\<close> returns a subscriber, with batch size 10, and logs nothing about
  it. No method changes the batch size, so after any run of the methods every
  configuration a worker of this subscriber gives to the client, for its subscription
  or for a fetch, has batch size 10.
\<close>

theorem New_defaults_batch_size:
  assumes "cfg_Client c = Some cl" and "sint (cfg_BatchSize c) \<le> 0"
  shows "\<exists>s. New (Some c) = Inr s \<and> batchSize s = 10 \<and> events s = []
           \<and> (\<forall>acts n m s' fuel subject h sel. run acts (n, s) = Some (m, s') \<longrightarrow>
                 list_all (\<lambda>cfg. BatchSize cfg = 10)
                   (configs (snd (subscribeToSubject fuel s' subject h sel))))"
proof -
  from assms obtain s where s: "New (Some c) = Inr s" "batchSize s = 10" "events s = []"
    by (auto simp: New_def Let_def)
  have "list_all (\<lambda>cfg. BatchSize cfg = 10) (configs (snd (subscribeToSubject fuel s' subject h sel)))"
    if "run acts (n, s) = Some (m, s')" for acts n m s' fuel subject h sel
    using run_batchSize [OF that] s(2) subscribeToSubject_batchSize [of s' fuel subject h sel]
    by simp
  with s show ?thesis by blast
qed

theorem New_defaults_batch_size_witness:
  "sint (cfg_BatchSize (testConfig\<lparr>cfg_BatchSize := - 5\<rparr>)) \<le> 0
   \<and> New (Some (testConfig\<lparr>cfg_BatchSize := - 5\<rparr>)) = Inr testSubscriber
   \<and> run [CallRegisterHandler ''test.subject'' (\<lambda>msg. None), CallStart] (0, testSubscriber)
       = Some (0, snd (Start (RegisterHandler ''test.subject'' (\<lambda>msg. None) testSubscriber)))
   \<and> length (configs (snd (subscribeToSubject 3
          (snd (Start (RegisterHandler ''test.subject'' (\<lambda>msg. None) testSubscriber)))
          ''test.subject'' (\<lambda>msg. None)
          (\<lambda>i. if i = 0 then Received testNotification else ChanClosed)))) = 2
   \<and> list_all (\<lambda>cfg. BatchSize cfg = 10) (configs (snd (subscribeToSubject 3
          (snd (Start (RegisterHandler ''test.subject'' (\<lambda>msg. None) testSubscriber)))
          ''test.subject'' (\<lambda>msg. None)
          (\<lambda>i. if i = 0 then Received testNotification else ChanClosed))))"
proof -
  let ?c = "testConfig\<lparr>cfg_BatchSize := - 5\<rparr>"
  let ?s1 = "snd (Start (RegisterHandler ''test.subject'' (\<lambda>msg. None) testSubscriber))"
  let ?sel = "\<lambda>i::nat. if i = 0 then Received testNotification else ChanClosed"
  have c: "cfg_Client ?c = Some mockEgressClient" by (simp add: testConfig_def)
  have b: "sint (cfg_BatchSize ?c) \<le> 0" by simp
  have n: "New (Some ?c) = Inr testSubscriber"
    by (simp add: New_def testConfig_def testSubscriber_def)
  have r: "run [CallRegisterHandler ''test.subject'' (\<lambda>msg. None), CallStart] (0, testSubscriber)
       = Some (0, ?s1)"
    by simp
  from New_defaults_batch_size [OF c b] obtain s where
    s: "New (Some ?c) = Inr s"
    and every: "\<And>acts n m s' fuel subject h sel. run acts (n, s) = Some (m, s') \<Longrightarrow>
                 list_all (\<lambda>cfg. BatchSize cfg = 10)
                   (configs (snd (subscribeToSubject fuel s' subject h sel)))"
    by blast
  from s n have "s = testSubscriber" by simp
  with r have "run [CallRegisterHandler ''test.subject'' (\<lambda>msg. None), CallStart] (0, s) = Some (0, ?s1)"
    by (simp only:)
  from every [OF this]
  have "list_all (\<lambda>cfg. BatchSize cfg = 10)
          (configs (snd (subscribeToSubject 3 ?s1 ''test.subject'' (\<lambda>msg. None) ?sel)))" .
  moreover have "length (configs (snd (subscribeToSubject 3 ?s1 ''test.subject'' (\<lambda>msg. None) ?sel))) = 2"
    by (simp add: fixtures subscribeToSubject_def processNotification_def eval_nat_numeral
                  Start_def RegisterHandler_def)
  ultimately show ?thesis using b n r by simp
qed

section \<open>Stopping\<close>

lemma close_calls_RegisterHandlers: "close_calls (events (RegisterHandlers hs s)) = close_calls (events s)"
  unfolding RegisterHandlers_def
  by (induction hs arbitrary: s) (auto simp: close_calls_def split: prod.splits)

lemma close_calls_Start: "close_calls (events (snd (Start s))) = close_calls (events s)"
  by (cases "handlers s = []") (simp_all add: Start_closed_form close_calls_def, simp add: Start_def)

lemma close_calls_Stop_cancel: "close_calls (events (Stop_cancel s)) = close_calls (events s)"
  by (simp add: Stop_cancel_def close_calls_def)

lemma close_calls_Stop_close: "close_calls (events (Stop_close s)) = Suc (close_calls (events s))"
  by (simp add: Stop_close_def Let_def close_calls_def split: option.splits)

lemma close_calls_RegisterHandler:
  "close_calls (events (RegisterHandler subject handler s)) = close_calls (events s)"
  by (simp add: RegisterHandler_def close_calls_def)

lemma perform_close_calls:
  "perform a (n, s) = Some (n', s') \<Longrightarrow>
   close_calls (events s') + n' = close_calls (events s) + n + (if a = EnterStop then 1 else 0)"
  by (cases a)
     (auto simp: close_calls_RegisterHandler close_calls_RegisterHandlers close_calls_Start Wait_def
                 close_calls_Stop_cancel close_calls_Stop_close
           split: if_splits option.splits)

lemma run_close_calls:
  "run acts (n, s) = Some (n', s') \<Longrightarrow>
   close_calls (events s') + n' = close_calls (events s) + n + count_list acts EnterStop"
proof (induction acts arbitrary: n s)
  case Nil
  then show ?case by simp
next
  case (Cons a acts)
  from Cons.prems obtain n1 s1 where
    p: "perform a (n, s) = Some (n1, s1)" and r: "run acts (n1, s1) = Some (n', s')"
    by (auto split: option.splits)
  from perform_close_calls [OF p] Cons.IH [OF r] show ?case by auto
qed

lemma run_append:
  "run (as @ bs) c = (case run as c of None \<Rightarrow> None | Some c' \<Rightarrow> run bs c')"
  by (induction as arbitrary: c) (auto split: option.splits)

lemma run_WorkerDone: "run (replicate (wg s) WorkerDone) (n, s) = Some (n, s\<lparr>wg := 0\<rparr>)"
proof (induction "wg s" arbitrary: s)
  case 0
  then show ?case by simp
next
  case (Suc k)
  then have "run (replicate k WorkerDone) (n, s\<lparr>wg := k\<rparr>) = Some (n, s\<lparr>wg := k, wg := 0\<rparr>)"
    using Suc.hyps(1) [of "s\<lparr>wg := k\<rparr>"] by simp
  with Suc.hyps(2) [symmetric] show ?case by simp
qed

text \<open>
  Claim C3, as the code has it. \<open>Stop\<close> has no guard against a second call: every call
  cancels, waits and then calls \<^verbatim>\<open>Close()\<close> on the client. In a run of the methods and
  the workers in which every call of \<open>Stop\<close> that entered has returned, \<^verbatim>\<open>Close()\<close> has
  been called once for each call of \<open>Stop\<close>. Calling \<open>Stop\<close> again is possible: once the
  workers that are still counted have exited, one more call returns, and it calls
  \<^verbatim>\<open>Close()\<close> once more.
\<close>

theorem Stop_closes_client_on_every_call:
  assumes "run acts (0, s) = Some (0, s')"
  shows "close_calls (events s') = close_calls (events s) + count_list acts EnterStop
       \<and> (\<exists>s''. run (replicate (wg s') WorkerDone @ [EnterStop, LeaveStop]) (0, s') = Some (0, s'')
               \<and> close_calls (events s'') = Suc (close_calls (events s')))"
proof -
  have "close_calls (events s') = close_calls (events s) + count_list acts EnterStop"
    using run_close_calls [OF assms] by simp
  moreover have "run (replicate (wg s') WorkerDone @ [EnterStop, LeaveStop]) (0, s')
                   = Some (0, Stop_close (Stop_cancel (s'\<lparr>wg := 0\<rparr>)))"
    by (simp add: run_append run_WorkerDone Stop_cancel_def)
  moreover have "close_calls (events (Stop_close (Stop_cancel (s'\<lparr>wg := 0\<rparr>)))) = Suc (close_calls (events s'))"
    by (simp add: close_calls_Stop_close close_calls_Stop_cancel)
  ultimately show ?thesis by simp
qed

theorem Stop_closes_client_on_every_call_witness:
  "run [EnterStop, LeaveStop, EnterStop, LeaveStop] (0, testSubscriber)
     = Some (0, Stop_close (Stop_cancel (Stop_close (Stop_cancel testSubscriber))))
   \<and> close_calls (events (Stop_close (Stop_cancel (Stop_close (Stop_cancel testSubscriber))))) = 2"
proof -
  have r: "run [EnterStop, LeaveStop, EnterStop, LeaveStop] (0, testSubscriber)
     = Some (0, Stop_close (Stop_cancel (Stop_close (Stop_cancel testSubscriber))))"
    by (simp add: Stop_cancel_def Stop_close_def Let_def fixtures)
  from Stop_closes_client_on_every_call [OF r] r show ?thesis
    by (simp add: fixtures close_calls_def)
qed

text \<open>
  Two calls of \<open>Stop\<close> on a fresh subscriber, as in a deferred \<^verbatim>\<open>Stop()\<close> after an
  explicit one: the client is closed twice.
\<close>

theorem Stop_twice_counterexample:
  "map_option (\<lambda>s. close_calls (events s)) (Option.bind (Stop testSubscriber) Stop) = Some 2"
  by (simp add: Stop_def Stop_cancel_def Stop_close_def Let_def close_calls_def fixtures)

end
